theory Spec2Isabelle
  imports Complex_Main
begin

section \<open>Strings and the character classes of the regular expressions\<close>

text \<open>
  A JavaScript string is a sequence of UTF-16 code units. The model uses \<^typ>\<open>string\<close>:
  each \<^typ>\<open>char\<close> stands for one code unit in the range U+0000 to U+00FF, so that
  \<^term>\<open>length\<close> is the string's \<^verbatim>\<open>.length\<close>. The classes below are the regular
  expression classes (without the \<^verbatim>\<open>u\<close> flag) restricted to that range:
  \<^verbatim>\<open>\w\<close> is \<^verbatim>\<open>[A-Za-z0-9_]\<close>, and \<^verbatim>\<open>\s\<close> is tab, line feed, vertical tab, form feed,
  carriage return, space and the no-break space U+00A0.
\<close>

definition isWordChar :: "char \<Rightarrow> bool" where
  "isWordChar c =
     (let n = (of_char c :: nat) in
        (48 \<le> n \<and> n \<le> 57) \<or> (65 \<le> n \<and> n \<le> 90) \<or> n = 95 \<or> (97 \<le> n \<and> n \<le> 122))"

definition isSpaceChar :: "char \<Rightarrow> bool" where
  "isSpaceChar c = (of_char c \<in> {9, 10, 11, 12, 13, 32, 160 :: nat})"

text \<open>The three alternatives of \<^verbatim>\<open>/[\w']+|[^\w\s]+|\s+/g\<close>, character by character.\<close>

definition wordRunChar :: "char \<Rightarrow> bool" where
  "wordRunChar c = (isWordChar c \<or> c = CHR 0x27)"

definition punctRunChar :: "char \<Rightarrow> bool" where
  "punctRunChar c = (\<not> isWordChar c \<and> \<not> isSpaceChar c)"

section \<open>Tokenizer (prepareDisplay, the match and the classification)\<close>

text \<open>
  \<^verbatim>\<open>text.match(/[\w']+|[^\w\s]+|\s+/g) || []\<close>: a global match scans from the left; at each
  position the alternatives are tried in order, each one greedy; after a match the scan
  goes on behind it, and a position where no alternative matches is skipped.
\<close>

function matchAll :: "string \<Rightarrow> string list" where
  "matchAll [] = []"
| "matchAll (c # cs) =
     (if wordRunChar c then
        takeWhile wordRunChar (c # cs) # matchAll (dropWhile wordRunChar (c # cs))
      else if punctRunChar c then
        takeWhile punctRunChar (c # cs) # matchAll (dropWhile punctRunChar (c # cs))
      else if isSpaceChar c then
        takeWhile isSpaceChar (c # cs) # matchAll (dropWhile isSpaceChar (c # cs))
      else matchAll cs)"
  by pat_completeness auto
termination
  by (relation "measure length") (auto simp: length_dropWhile_le less_Suc_eq_le)

text \<open>
  The tests of the \<^verbatim>\<open>forEach\<close> body and of \<^verbatim>\<open>handleWordBoundary\<close>:
  \<^verbatim>\<open>/^\s+$/.test(word)\<close> and \<^verbatim>\<open>/^[^\w]+$/.test(word)\<close>.
\<close>

definition isWhitespaceToken :: "string \<Rightarrow> bool" where
  "isWhitespaceToken w = (w \<noteq> [] \<and> list_all isSpaceChar w)"

definition isNonWordToken :: "string \<Rightarrow> bool" where
  "isNonWordToken w = (w \<noteq> [] \<and> list_all (\<lambda>c. \<not> isWordChar c) w)"

datatype kind = Whitespace | Punctuation | Word

definition classify :: "string \<Rightarrow> kind" where
  "classify w =
     (if isWhitespaceToken w then Whitespace
      else if isNonWordToken w then Punctuation
      else Word)"

section \<open>Dictionary (dictionary.js)\<close>

text \<open>
  \<^verbatim>\<open>toLowerCase\<close> on code units up to U+00FF: A to Z, and the Latin-1 capitals U+00C0 to
  U+00DE without the multiplication sign U+00D7, move up by 32.
\<close>

definition toLowerChar :: "char \<Rightarrow> char" where
  "toLowerChar c =
     (let n = (of_char c :: nat) in
        if (65 \<le> n \<and> n \<le> 90) \<or> (192 \<le> n \<and> n \<le> 222 \<and> n \<noteq> 215)
        then char_of (n + 32) else c)"

definition toLowerCase :: "string \<Rightarrow> string" where
  "toLowerCase w = map toLowerChar w"

definition isLowerAZ :: "char \<Rightarrow> bool" where
  "isLowerAZ c = (97 \<le> (of_char c :: nat) \<and> (of_char c :: nat) \<le> 122)"

text \<open>\<^verbatim>\<open>word.toLowerCase().replace(/[^a-z]/g, '')\<close>\<close>

definition normalize :: "string \<Rightarrow> string" where
  "normalize w = filter isLowerAZ (toLowerCase w)"

text \<open>
  The store \<^verbatim>\<open>wordData\<close> is a map from keys to entries: \<open>wordData k = Some e\<close> when the
  property read \<^verbatim>\<open>wordData[k]\<close> gives the (truthy) entry \<open>e\<close>, and \<open>None\<close> when it gives
  \<^verbatim>\<open>undefined\<close> or another falsy value.
\<close>

definition suffixes :: "(string \<times> nat) list" where
  "suffixes =
     [(''ing'', 4), (''ed'', 3), (''s'', 3), (''es'', 4), (''er'', 4),
      (''est'', 5), (''ly'', 4), (''tion'', 5), (''ment'', 5)]"

definition endsWith :: "string \<Rightarrow> string \<Rightarrow> bool" where
  "endsWith w suffix =
     (length suffix \<le> length w \<and> drop (length w - length suffix) w = suffix)"

text \<open>The body of the loop of \<^verbatim>\<open>getBaseForm\<close>, once the guard on the suffix has passed.\<close>

definition tryBase :: "(string \<rightharpoonup> 'v) \<Rightarrow> string \<Rightarrow> string option" where
  "tryBase wordData base =
     (if wordData base \<noteq> None then Some base
      else
        let undoubled = butlast base;
            doubling =
              (if length base \<ge> 2 \<and> base ! (length base - 1) = base ! (length base - 2)
               then (if wordData undoubled \<noteq> None then Some undoubled else None)
               else None);
            withE = base @ ''e''
        in case doubling of
             Some u \<Rightarrow> Some u
           | None \<Rightarrow> (if wordData withE \<noteq> None then Some withE else None))"

fun getBaseFormLoop :: "(string \<rightharpoonup> 'v) \<Rightarrow> string \<Rightarrow> (string \<times> nat) list \<Rightarrow> string option" where
  "getBaseFormLoop wordData w [] = None"
| "getBaseFormLoop wordData w ((suffix, minLength) # rest) =
     (if length w \<ge> minLength \<and> endsWith w suffix then
        (case tryBase wordData (take (length w - length suffix) w) of
           Some b \<Rightarrow> Some b
         | None \<Rightarrow> getBaseFormLoop wordData w rest)
      else getBaseFormLoop wordData w rest)"

definition getBaseForm :: "(string \<rightharpoonup> 'v) \<Rightarrow> string \<Rightarrow> string option" where
  "getBaseForm wordData w = getBaseFormLoop wordData w suffixes"

text \<open>
  The object returned by \<^verbatim>\<open>lookup\<close>: the key under \<^verbatim>\<open>word\<close>, the normalised input under
  \<^verbatim>\<open>originalWord\<close> when stemming found the key, and the entry spread into it.
\<close>

record 'v wordInfo =
  word :: string
  originalWord :: "string option"
  entry :: 'v

definition lookup :: "(string \<rightharpoonup> 'v) \<Rightarrow> string \<Rightarrow> 'v wordInfo option" where
  "lookup wordData w =
     (if w = [] then None
      else
        let normalized = normalize w in
        case wordData normalized of
          Some e \<Rightarrow> Some \<lparr>word = normalized, originalWord = None, entry = e\<rparr>
        | None \<Rightarrow>
            (case getBaseForm wordData normalized of
               None \<Rightarrow> None
             | Some baseForm \<Rightarrow>
                 (case wordData baseForm of
                    None \<Rightarrow> None
                  | Some e \<Rightarrow>
                      Some \<lparr>word = baseForm, originalWord = Some normalized, entry = e\<rparr>)))"

section \<open>Application state (the script of the page)\<close>

text \<open>
  A word span of the display: its text and whether its class list holds \<^verbatim>\<open>active\<close>.
\<close>

record element =
  textContent :: string
  active :: bool

text \<open>The children of \<^verbatim>\<open>shadowingDisplay\<close>; a word span is named by its index in \<^verbatim>\<open>wordElements\<close>.\<close>

datatype node = TextNode string | PunctuationSpan string | WordSpan nat

text \<open>The function installed by \<^verbatim>\<open>TTS.setOnEnd\<close>.\<close>

datatype endCallback = HandleSpeechEnd | ShadowingNormalEnd string | ShadowingSlowEnd

text \<open>
  The interval started by \<^verbatim>\<open>startHighlighting\<close>: the variable \<^verbatim>\<open>wordIndex\<close> of its closure
  and its period in milliseconds (computed over the reals).
\<close>

record timer =
  wordIndex :: nat
  intervalPerWord :: real

record app =
  textInput :: string
  currentText :: string
  words :: "string list"
  wordElements :: "element list"
  currentWordIndex :: int
  isShadowingMode :: bool
  highlightTimer :: "timer option"
  boundaryFired :: bool
  isSingleWordMode :: bool
  shadowingDisplay :: "node list"
  statusText :: string
  statusPlaying :: bool
  statusShadowing :: bool
  buttonsDisabled :: bool
  onEnd :: endCallback
  currentUtterance :: "(string \<times> real) option"
  timeouts :: "(nat \<times> string) list"

text \<open>The state after \<^verbatim>\<open>init\<close>, with an empty input field.\<close>

definition initialState :: app where
  "initialState =
     \<lparr>textInput = [], currentText = [], words = [], wordElements = [],
      currentWordIndex = - 1, isShadowingMode = False, highlightTimer = None,
      boundaryFired = False, isSingleWordMode = False, shadowingDisplay = [],
      statusText = ''Ready'', statusPlaying = False, statusShadowing = False,
      buttonsDisabled = False, onEnd = HandleSpeechEnd, currentUtterance = None,
      timeouts = []\<rparr>"

subsection \<open>Collaborators: status bar, buttons, speech service\<close>

definition updateStatus :: "string \<Rightarrow> string \<Rightarrow> app \<Rightarrow> app" where
  "updateStatus message mode s =
     s\<lparr>statusText := message,
       statusPlaying := (mode = ''playing''),
       statusShadowing := (mode = ''shadowing'')\<rparr>"

definition disableButtons :: "bool \<Rightarrow> app \<Rightarrow> app" where
  "disableButtons disabled s = s\<lparr>buttonsDisabled := disabled\<rparr>"

definition TTS_stop :: "app \<Rightarrow> app" where
  "TTS_stop s = s\<lparr>currentUtterance := None\<rparr>"

definition TTS_speak :: "string \<Rightarrow> real \<Rightarrow> app \<Rightarrow> app" where
  "TTS_speak text rate s = (TTS_stop s)\<lparr>currentUtterance := Some (text, rate)\<rparr>"

definition TTS_speakNormal :: "string \<Rightarrow> app \<Rightarrow> app" where
  "TTS_speakNormal text s = TTS_speak text 1 s"

definition TTS_speakSlow :: "string \<Rightarrow> app \<Rightarrow> app" where
  "TTS_speakSlow text s = TTS_speak text (7 / 10) s"

subsection \<open>Input and display\<close>

text \<open>\<^verbatim>\<open>String.prototype.trim\<close> removes the characters of \<^verbatim>\<open>\s\<close> at both ends.\<close>

definition trim :: "string \<Rightarrow> string" where
  "trim t = rev (dropWhile isSpaceChar (rev (dropWhile isSpaceChar t)))"

definition getCurrentText :: "app \<Rightarrow> string" where
  "getCurrentText s = trim (textInput s)"

text \<open>One round of the \<^verbatim>\<open>forEach\<close> of \<^verbatim>\<open>prepareDisplay\<close>, on the display and \<^verbatim>\<open>wordElements\<close>.\<close>

definition appendToken :: "node list \<times> element list \<Rightarrow> string \<Rightarrow> node list \<times> element list" where
  "appendToken acc w =
     (if isWhitespaceToken w then (fst acc @ [TextNode '' ''], snd acc)
      else if isNonWordToken w then (fst acc @ [PunctuationSpan w], snd acc)
      else (fst acc @ [WordSpan (length (snd acc))],
            snd acc @ [\<lparr>textContent = w, active = False\<rparr>]))"

definition prepareDisplay :: "string \<Rightarrow> app \<Rightarrow> app" where
  "prepareDisplay text s =
     (let ws = matchAll text;
          built = foldl appendToken ([], []) ws
      in s\<lparr>currentText := text, words := ws,
           shadowingDisplay := fst built, wordElements := snd built,
           currentWordIndex := - 1, boundaryFired := False\<rparr>)"

subsection \<open>Highlighting\<close>

text \<open>
  \<open>inBounds i s\<close> is the test \<^verbatim>\<open>i >= 0 && i < wordElements.length\<close> that \<^verbatim>\<open>highlightWord\<close>
  makes twice, and \<open>setActive b i s\<close> is \<^verbatim>\<open>wordElements[i].classList.add('active')\<close> for
  \<open>b = True\<close> and \<^verbatim>\<open>.remove('active')\<close> for \<open>b = False\<close>; it is only used under that test.
\<close>

definition inBounds :: "int \<Rightarrow> app \<Rightarrow> bool" where
  "inBounds i s = (i \<ge> 0 \<and> i < int (length (wordElements s)))"

definition setActive :: "bool \<Rightarrow> int \<Rightarrow> app \<Rightarrow> app" where
  "setActive b i s =
     s\<lparr>wordElements := (wordElements s)[nat i := (wordElements s ! nat i)\<lparr>active := b\<rparr>]\<rparr>"

definition highlightWord :: "int \<Rightarrow> app \<Rightarrow> app" where
  "highlightWord index s =
     (let s1 = (if inBounds (currentWordIndex s) s
                then setActive False (currentWordIndex s) s else s);
          s2 = s1\<lparr>currentWordIndex := index\<rparr>
      in if inBounds index s2 then setActive True index s2 else s2)"

definition clearHighlights :: "app \<Rightarrow> app" where
  "clearHighlights s =
     s\<lparr>wordElements := map (\<lambda>el. el\<lparr>active := False\<rparr>) (wordElements s),
       currentWordIndex := - 1\<rparr>"

definition stopHighlighting :: "app \<Rightarrow> app" where
  "stopHighlighting s =
     (if highlightTimer s \<noteq> None then s\<lparr>highlightTimer := None\<rparr> else s)"

definition startHighlighting :: "real \<Rightarrow> app \<Rightarrow> app" where
  "startHighlighting rate s =
     (let s1 = stopHighlighting s in
      if length (wordElements s1) = 0 then s1
      else
        let wordsPerMinute = 150 * rate;
            totalDuration = (real (length (wordElements s1)) / wordsPerMinute) * 60 * 1000;
            interval = totalDuration / real (length (wordElements s1))
        in (highlightWord 0 s1)
             \<lparr>highlightTimer := Some \<lparr>wordIndex = 1, intervalPerWord = interval\<rparr>\<rparr>)"

text \<open>
  One firing of the interval of \<^verbatim>\<open>startHighlighting\<close>; a cleared interval does not fire.
\<close>

definition timerTick :: "app \<Rightarrow> app" where
  "timerTick s =
     (case highlightTimer s of
        None \<Rightarrow> s
      | Some t \<Rightarrow>
          if boundaryFired s then s
          else if wordIndex t < length (wordElements s) then
            (highlightWord (int (wordIndex t)) s)
              \<lparr>highlightTimer := Some (t\<lparr>wordIndex := wordIndex t + 1\<rparr>)\<rparr>
          else stopHighlighting s)"

text \<open>
  The loop of \<^verbatim>\<open>handleWordBoundary\<close> over \<^verbatim>\<open>words\<close>, with its variables \<^verbatim>\<open>charCount\<close> and
  \<^verbatim>\<open>wordIdx\<close>; \<^verbatim>\<open>i < words.length - 1\<close> holds when tokens remain behind the current one.
  The result is the index handed to \<^verbatim>\<open>highlightWord\<close>, or \<open>None\<close> when the loop runs out.
\<close>

fun findSpokenWord :: "string list \<Rightarrow> int \<Rightarrow> int \<Rightarrow> nat \<Rightarrow> nat option" where
  "findSpokenWord [] charIndex charCount wordIdx = None"
| "findSpokenWord (w # rest) charIndex charCount wordIdx =
     (if isWhitespaceToken w \<or> isNonWordToken w then
        findSpokenWord rest charIndex (charCount + int (length w)) wordIdx
      else if charCount \<le> charIndex \<and> charIndex < charCount + int (length w) then
        Some wordIdx
      else
        findSpokenWord rest charIndex
          (charCount + int (length w) + (if rest \<noteq> [] then 1 else 0)) (wordIdx + 1))"

definition handleWordBoundary :: "int \<Rightarrow> int \<Rightarrow> app \<Rightarrow> app" where
  "handleWordBoundary charIndex charLength s =
     (if isSingleWordMode s then s
      else
        let s1 = s\<lparr>boundaryFired := True\<rparr> in
        case findSpokenWord (words s1) charIndex 0 0 of
          Some wordIdx \<Rightarrow> highlightWord (int wordIdx) s1
        | None \<Rightarrow> s1)"

subsection \<open>Buttons and speech callbacks\<close>

definition handlePlay :: "app \<Rightarrow> app" where
  "handlePlay s =
     (let text = getCurrentText s in
      if text = [] then updateStatus ''Please enter some text'' [] s
      else TTS_speakNormal text
             (startHighlighting 1
               (updateStatus ''Playing...'' []
                 (disableButtons True (prepareDisplay text s)))))"

definition handleSlow :: "app \<Rightarrow> app" where
  "handleSlow s =
     (let text = getCurrentText s in
      if text = [] then updateStatus ''Please enter some text'' [] s
      else TTS_speakSlow text
             (startHighlighting (7 / 10)
               (updateStatus ''Playing (slow)...'' []
                 (disableButtons True (prepareDisplay text s)))))"

definition startShadowingMode :: "string \<Rightarrow> app \<Rightarrow> app" where
  "startShadowingMode text s =
     TTS_speakNormal text
       ((updateStatus ''Shadowing: Listen first...'' ''shadowing''
          (disableButtons True (s\<lparr>isShadowingMode := True\<rparr>)))
        \<lparr>onEnd := ShadowingNormalEnd text\<rparr>)"

definition handleShadowing :: "app \<Rightarrow> app" where
  "handleShadowing s =
     (let text = getCurrentText s in
      if text = [] then updateStatus ''Please enter some text'' [] s
      else startShadowingMode text (prepareDisplay text s))"

definition handleShadowingComplete :: "app \<Rightarrow> app" where
  "handleShadowingComplete s =
     (updateStatus ''Shadowing complete! Click words to learn more.'' []
        (disableButtons False
          (clearHighlights (stopHighlighting (s\<lparr>isShadowingMode := False\<rparr>)))))
     \<lparr>onEnd := HandleSpeechEnd\<rparr>"

definition handleStop :: "app \<Rightarrow> app" where
  "handleStop s =
     (updateStatus ''Stopped'' []
        (disableButtons False
          (clearHighlights (stopHighlighting ((TTS_stop s)\<lparr>isShadowingMode := False\<rparr>)))))
     \<lparr>onEnd := HandleSpeechEnd\<rparr>"

definition handleSpeechEnd :: "app \<Rightarrow> app" where
  "handleSpeechEnd s =
     (if isSingleWordMode s then s\<lparr>isSingleWordMode := False\<rparr>
      else updateStatus ''Done. Click words to learn more.'' []
             ((disableButtons False (clearHighlights (stopHighlighting s)))
              \<lparr>statusPlaying := False, statusShadowing := False\<rparr>))"

text \<open>
  The callback of the first phase of shadowing registers the pause of 1000 ms; the
  callback of that pause starts the slow phase.
\<close>

definition shadowingNormalEnd :: "string \<Rightarrow> app \<Rightarrow> app" where
  "shadowingNormalEnd text s =
     (if \<not> isShadowingMode s then s
      else (updateStatus ''Shadowing: Get ready to follow...'' ''shadowing'' s)
             \<lparr>timeouts := timeouts s @ [(1000, text)]\<rparr>)"

definition timeoutFired :: "app \<Rightarrow> app" where
  "timeoutFired s =
     (case timeouts s of
        [] \<Rightarrow> s
      | (delay, text) # rest \<Rightarrow>
          let s1 = s\<lparr>timeouts := rest\<rparr> in
          if \<not> isShadowingMode s1 then s1
          else TTS_speakSlow text
                 (startHighlighting (7 / 10)
                   ((updateStatus ''Shadowing: Follow along!'' ''shadowing'' s1)
                    \<lparr>onEnd := ShadowingSlowEnd, boundaryFired := False\<rparr>)))"

text \<open>\<^verbatim>\<open>utterance.onend\<close>: the utterance is dropped and the installed callback runs.\<close>

definition speechEnded :: "app \<Rightarrow> app" where
  "speechEnded s =
     (let s1 = s\<lparr>currentUtterance := None\<rparr> in
      case onEnd s1 of
        HandleSpeechEnd \<Rightarrow> handleSpeechEnd s1
      | ShadowingNormalEnd text \<Rightarrow> shadowingNormalEnd text s1
      | ShadowingSlowEnd \<Rightarrow> handleShadowingComplete s1)"

text \<open>
  \<^verbatim>\<open>handleSpeechStart\<close>, and the two branches of \<^verbatim>\<open>handleBreakdownClick\<close> as far as they
  touch this state: a click on a word of the breakdown panel speaks that word alone.
\<close>

definition handleSpeechStart :: "app \<Rightarrow> app" where
  "handleSpeechStart s = (if isSingleWordMode s then s else s\<lparr>statusPlaying := True\<rparr>)"

definition handleBreakdownClick :: "string \<Rightarrow> app \<Rightarrow> app" where
  "handleBreakdownClick w s =
     (if w = [] then s else TTS_speakNormal w (s\<lparr>isSingleWordMode := True\<rparr>))"

section \<open>Events of the page\<close>

text \<open>
  Everything that can run a piece of the script once \<^verbatim>\<open>init\<close> has finished: editing the
  input field, the four buttons, a click in the breakdown panel, the callbacks of the
  speech service, the pause of the shadowing mode and the interval of the ticker. A click
  on a word of the display (\<^verbatim>\<open>handleWordClick\<close>) marks that word as selected and fills the
  breakdown panel; it touches nothing of the state kept here and is left out.
\<close>

datatype event =
    InputChanged string
  | PlayClicked | SlowClicked | ShadowingClicked | StopClicked
  | BreakdownClicked string
  | SpeechStarted | SpeechEnded | TimeoutFired | TimerTick | WordBoundary int int

fun handleEvent :: "app \<Rightarrow> event \<Rightarrow> app" where
  "handleEvent s (InputChanged t) = s\<lparr>textInput := t\<rparr>"
| "handleEvent s PlayClicked = handlePlay s"
| "handleEvent s SlowClicked = handleSlow s"
| "handleEvent s ShadowingClicked = handleShadowing s"
| "handleEvent s StopClicked = handleStop s"
| "handleEvent s (BreakdownClicked w) = handleBreakdownClick w s"
| "handleEvent s SpeechStarted = handleSpeechStart s"
| "handleEvent s SpeechEnded = speechEnded s"
| "handleEvent s TimeoutFired = timeoutFired s"
| "handleEvent s TimerTick = timerTick s"
| "handleEvent s (WordBoundary charIndex charLength) = handleWordBoundary charIndex charLength s"

section \<open>Runs of signals and of highlight operations\<close>

text \<open>
  Within one session of the synchronizer (from the start of the ticker to the next start or
  stop) two kinds of callbacks arrive, in any order: firings of the interval and word
  boundary events of the speech service.
\<close>

datatype signal = Tick | Boundary int int

fun deliver :: "app \<Rightarrow> signal \<Rightarrow> app" where
  "deliver s Tick = timerTick s"
| "deliver s (Boundary charIndex charLength) = handleWordBoundary charIndex charLength s"

datatype highlightOp = HighlightWord int | ClearHighlights

fun applyOp :: "app \<Rightarrow> highlightOp \<Rightarrow> app" where
  "applyOp s (HighlightWord index) = highlightWord index s"
| "applyOp s ClearHighlights = clearHighlights s"

fun opInBounds :: "nat \<Rightarrow> highlightOp \<Rightarrow> bool" where
  "opInBounds n (HighlightWord index) = (0 \<le> index \<and> index < int n)"
| "opInBounds n ClearHighlights = True"

text \<open>
  The element at position \<open>j\<close> is active exactly when \<open>j\<close> is the recorded index; with the
  recorded index out of range no element is active.
\<close>

definition highlightConsistent :: "app \<Rightarrow> bool" where
  "highlightConsistent s =
     (map active (wordElements s) =
      map (\<lambda>j. int j = currentWordIndex s) [0..<length (wordElements s)])"

text \<open>
  The claim in its own words: at most one element is active, and the recorded index is
  either -1 with no element active, or in bounds with exactly that element active.
\<close>

definition singleActiveHighlight :: "app \<Rightarrow> bool" where
  "singleActiveHighlight s =
     (length (filter active (wordElements s)) \<le> 1
      \<and> (if currentWordIndex s = - 1
          then list_all (\<lambda>el. \<not> active el) (wordElements s)
          else inBounds (currentWordIndex s) s
               \<and> map active (wordElements s)
                   = map (\<lambda>j. int j = currentWordIndex s) [0..<length (wordElements s)]))"

text \<open>
  A token that the \<^verbatim>\<open>forEach\<close> of \<^verbatim>\<open>prepareDisplay\<close> turns into a word element, and that
  \<^verbatim>\<open>handleWordBoundary\<close> counts in \<^verbatim>\<open>wordIdx\<close>; and the invariant that every event keeps.
\<close>

definition isWordToken :: "string \<Rightarrow> bool" where
  "isWordToken w = (\<not> isWhitespaceToken w \<and> \<not> isNonWordToken w)"

definition displayInvariant :: "app \<Rightarrow> bool" where
  "displayInvariant s =
     (highlightConsistent s
      \<and> (currentWordIndex s = - 1 \<or> inBounds (currentWordIndex s) s)
      \<and> length (wordElements s) = length (filter isWordToken (words s)))"

section \<open>Tokens with their kind, and runs\<close>

definition classifiedTokens :: "string \<Rightarrow> (string \<times> kind) list" where
  "classifiedTokens text = map (\<lambda>w. (w, classify w)) (matchAll text)"

text \<open>
  The class a token was matched by is the first alternative that accepts its first
  character; \<open>continuesRun t c\<close> says that \<open>c\<close> belongs to that class.
\<close>

definition continuesRun :: "string \<Rightarrow> char \<Rightarrow> bool" where
  "continuesRun t c =
     (if wordRunChar (hd t) then wordRunChar c
      else if punctRunChar (hd t) then punctRunChar c
      else isSpaceChar c)"

fun rightMaximal :: "string list \<Rightarrow> bool" where
  "rightMaximal (t # u # rest) = (\<not> continuesRun t (hd u) \<and> rightMaximal (u # rest))"
| "rightMaximal _ = True"

text \<open>A token is a non-empty run of the class it was matched by.\<close>

definition matchedRun :: "string \<Rightarrow> bool" where
  "matchedRun t = (t \<noteq> [] \<and> list_all (continuesRun t) t)"

definition kindMatchesRun :: "string \<Rightarrow> bool" where
  "kindMatchesRun t =
     ((classify t = Whitespace) = list_all isSpaceChar t
      \<and> (classify t = Punctuation) = list_all punctRunChar t
      \<and> (classify t = Word) = (list_all wordRunChar t \<and> list_ex isWordChar t))"

section \<open>The wording of the specification, for comparison\<close>

text \<open>
  The tokenizer as the specification words it: word-characters are letters, digits and the
  apostrophe; every maximal run of characters of one kind is one token of that kind.
\<close>

definition spec_wordCharacter :: "char \<Rightarrow> bool" where
  "spec_wordCharacter c =
     (let n = (of_char c :: nat) in
        (65 \<le> n \<and> n \<le> 90) \<or> (97 \<le> n \<and> n \<le> 122) \<or> (48 \<le> n \<and> n \<le> 57)
        \<or> c = CHR 0x27)"

definition spec_kind :: "char \<Rightarrow> kind" where
  "spec_kind c =
     (if spec_wordCharacter c then Word
      else if isSpaceChar c then Whitespace
      else Punctuation)"

fun spec_tokenize :: "string \<Rightarrow> (string \<times> kind) list" where
  "spec_tokenize [] = []"
| "spec_tokenize (c # cs) =
     (case spec_tokenize cs of
        [] \<Rightarrow> [([c], spec_kind c)]
      | (t, k) # rest \<Rightarrow>
          if k = spec_kind c then (c # t, k) # rest
          else ([c], spec_kind c) # (t, k) # rest)"

text \<open>
  The stemmer as the specification words it: the suffixes in their priority order; for the
  base left by a suffix the candidates are the base itself, the base without its doubled
  last character, and the base with a silent e; the first candidate found in the store wins.
\<close>

datatype repair = DirectBase | DoublingUndo | SilentE

definition spec_suffix_order :: "string list" where
  "spec_suffix_order =
     [''ing'', ''ed'', ''s'', ''es'', ''er'', ''est'', ''ly'', ''tion'', ''ment'']"

definition spec_repairs :: "string \<Rightarrow> (repair \<times> string) list" where
  "spec_repairs base =
     [(DirectBase, base)]
     @ (if length base \<ge> 2 \<and> last base = last (butlast base)
        then [(DoublingUndo, butlast base)] else [])
     @ [(SilentE, base @ ''e'')]"

definition spec_candidates ::
  "(string \<times> nat) list \<Rightarrow> string \<Rightarrow> (string \<times> repair \<times> string) list" where
  "spec_candidates table w =
     concat (map (\<lambda>(suffix, minLength).
               if length w \<ge> minLength \<and> endsWith w suffix
               then map (Pair suffix) (spec_repairs (take (length w - length suffix) w))
               else []) table)"

definition spec_stem ::
  "(string \<rightharpoonup> 'v) \<Rightarrow> string \<Rightarrow> (string \<times> repair \<times> string) option" where
  "spec_stem wordData w =
     find (\<lambda>cand. wordData (snd (snd cand)) \<noteq> None) (spec_candidates suffixes w)"

section \<open>Example states\<close>

text \<open>
  The text ``Hello world!'' typed into the input field: after \<^verbatim>\<open>prepareDisplay\<close> alone,
  after the Play button, and after the Shadowing button.
\<close>

definition helloDisplay :: app where
  "helloDisplay = prepareDisplay ''Hello world!'' initialState"

definition helloSession :: app where
  "helloSession = handlePlay (initialState\<lparr>textInput := ''Hello world!''\<rparr>)"

definition helloShadowing :: app where
  "helloShadowing = handleShadowing (initialState\<lparr>textInput := ''Hello world!''\<rparr>)"

section \<open>Properties of the tokenizer\<close>

text \<open>
  C7. Tokenizer round-trip: for every input string, the concatenation of the matched runs,
  in order, is the input string itself.
\<close>

theorem matchAll_roundtrip: "concat (matchAll s) = s"
  by (induction s rule: matchAll.induct) (auto simp: punctRunChar_def wordRunChar_def)

theorem matchAll_roundtrip_witness: "concat (matchAll ''Hello world!'') = ''Hello world!''"
  by (rule matchAll_roundtrip)

lemma wordChar_not_space: "isWordChar c \<Longrightarrow> \<not> isSpaceChar c"
  by (auto simp: isWordChar_def isSpaceChar_def Let_def)

lemma apostrophe_not_space: "\<not> isSpaceChar (CHR 0x27)"
  by (simp add: isSpaceChar_def)

lemma matchAll_hd: "s \<noteq> [] \<Longrightarrow> matchAll s \<noteq> [] \<and> hd (hd (matchAll s)) = hd s"
  by (cases s) (auto simp: punctRunChar_def wordRunChar_def)

lemma rightMaximal_Cons:
  assumes "t \<noteq> []" "\<And>x. continuesRun t x = p x" "rightMaximal (matchAll (dropWhile p s))"
  shows "rightMaximal (t # matchAll (dropWhile p s))"
proof (cases "dropWhile p s")
  case Nil
  show ?thesis unfolding Nil by simp
next
  case (Cons d ds)
  then have "\<not> p d" using hd_dropWhile[of p s] by auto
  moreover obtain u rest where "matchAll (dropWhile p s) = u # rest" "hd u = d"
    using matchAll_hd[of "dropWhile p s"] Cons by (cases "matchAll (dropWhile p s)") auto
  ultimately show ?thesis using assms by simp
qed

lemma matchAll_rightMaximal: "rightMaximal (matchAll s)"
proof (induction s rule: matchAll.induct)
  case 1
  then show ?case by simp
next
  case (2 c cs)
  show ?case
  proof (cases "wordRunChar c")
    case True
    then show ?thesis using 2
      by (auto intro!: rightMaximal_Cons simp: continuesRun_def simp del: dropWhile.simps)
  next
    case nw: False
    show ?thesis
    proof (cases "punctRunChar c")
      case True
      then show ?thesis using 2 nw
        by (auto intro!: rightMaximal_Cons simp: continuesRun_def simp del: dropWhile.simps)
    next
      case False
      then have "isSpaceChar c" using nw by (auto simp: punctRunChar_def wordRunChar_def)
      then show ?thesis using 2 nw False
        by (auto intro!: rightMaximal_Cons simp: continuesRun_def simp del: dropWhile.simps)
    qed
  qed
qed

lemma continuesRun_Cons:
  "continuesRun (c # cs) =
     (if wordRunChar c then wordRunChar else if punctRunChar c then punctRunChar else isSpaceChar)"
  by (rule ext) (simp add: continuesRun_def)

lemma continuesRun_hd: "hd t = hd s \<Longrightarrow> continuesRun t = continuesRun s"
  by (rule ext) (simp add: continuesRun_def)

lemma continuesRun_self: "s \<noteq> [] \<Longrightarrow> continuesRun s (hd s)"
  by (cases s) (auto simp: continuesRun_def punctRunChar_def wordRunChar_def)

lemma matchAll_unfold:
  assumes "s \<noteq> []"
  shows "matchAll s = takeWhile (continuesRun s) s # matchAll (dropWhile (continuesRun s) s)"
proof -
  obtain c cs where s: "s = c # cs" using assms by (cases s) auto
  have "\<not> wordRunChar c \<Longrightarrow> \<not> punctRunChar c \<Longrightarrow> isSpaceChar c"
    by (auto simp: punctRunChar_def wordRunChar_def)
  then show ?thesis
    unfolding s continuesRun_Cons by (auto simp del: takeWhile.simps dropWhile.simps)
qed

lemma takeWhile_matchedRun:
  assumes "s \<noteq> []"
  shows "matchedRun (takeWhile (continuesRun s) s)"
proof -
  let ?t = "takeWhile (continuesRun s) s"
  obtain c cs where s: "s = c # cs" using assms by (cases s) auto
  have p: "continuesRun s c" using continuesRun_self[OF assms] by (simp add: s)
  then have t: "?t = c # takeWhile (continuesRun s) cs" by (simp add: s)
  then have "hd ?t = hd s" by (simp add: s)
  then have "continuesRun ?t = continuesRun s" by (rule continuesRun_hd)
  moreover have "list_all (continuesRun s) ?t"
    by (auto simp: list_all_iff dest: set_takeWhileD)
  ultimately show ?thesis using t by (simp add: matchedRun_def)
qed

lemma matchAll_matchedRun: "list_all matchedRun (matchAll s)"
proof (induction s rule: length_induct)
  case (1 s)
  show ?case
  proof (cases "s = []")
    case True
    then show ?thesis by simp
  next
    case False
    have "length (dropWhile (continuesRun s) s) < length s"
      using False continuesRun_self[OF False] by (cases s) (auto simp: length_dropWhile_le less_Suc_eq_le)
    then have "list_all matchedRun (matchAll (dropWhile (continuesRun s) s))"
      using 1 by blast
    then show ?thesis
      using matchAll_unfold[OF False] takeWhile_matchedRun[OF False] by simp
  qed
qed

lemma rightMaximal_tail: "rightMaximal (t # ts) \<Longrightarrow> rightMaximal ts"
  by (cases ts) simp_all

lemma matchAll_unique:
  "list_all matchedRun ts \<Longrightarrow> rightMaximal ts \<Longrightarrow> matchAll (concat ts) = ts"
proof (induction ts)
  case Nil
  then show ?case by simp
next
  case (Cons t ts)
  let ?rest = "concat ts"
  let ?s = "t @ ?rest"
  from Cons.prems have t: "t \<noteq> []" "\<And>x. x \<in> set t \<Longrightarrow> continuesRun t x"
    by (auto simp: matchedRun_def list_all_iff)
  have ih: "matchAll ?rest = ts"
    using Cons.IH Cons.prems rightMaximal_tail[of t ts] by simp
  have stop: "takeWhile (continuesRun t) ?rest = [] \<and> dropWhile (continuesRun t) ?rest = ?rest"
  proof (cases ts)
    case Nil
    then show ?thesis by simp
  next
    case (Cons u us)
    with Cons.prems have u: "u \<noteq> []" "\<not> continuesRun t (hd u)"
      by (auto simp: matchedRun_def)
    then obtain d ds where "u = d # ds" by (cases u) auto
    with u Cons show ?thesis by simp
  qed
  have s: "?s \<noteq> []" using t by simp
  have "hd ?s = hd t" using t by simp
  then have cls: "continuesRun ?s = continuesRun t" by (rule continuesRun_hd)
  have "takeWhile (continuesRun t) ?s = t" "dropWhile (continuesRun t) ?s = ?rest"
    using t(2) stop by (simp_all add: takeWhile_append2 dropWhile_append2)
  then have "matchAll ?s = t # matchAll ?rest"
    using matchAll_unfold[OF s] by (simp only: cls)
  then show ?case using ih by simp
qed

lemma matchedRun_kind: "matchedRun t \<Longrightarrow> kindMatchesRun t"
proof -
  assume m: "matchedRun t"
  then obtain c cs where t: "t = c # cs" by (cases t) (auto simp: matchedRun_def)
  from m have "list_all wordRunChar t \<or> list_all punctRunChar t \<or> list_all isSpaceChar t"
    unfolding matchedRun_def t continuesRun_Cons by (auto split: if_splits)
  then show ?thesis
    unfolding kindMatchesRun_def classify_def isWhitespaceToken_def isNonWordToken_def t
    by (auto simp: list_all_iff list_ex_iff wordRunChar_def punctRunChar_def apostrophe_not_space
           dest: wordChar_not_space)
qed

lemma matchAll_concat: "concat (matchAll s) = s"
  by (induction s rule: matchAll.induct) (auto simp: punctRunChar_def wordRunChar_def)

text \<open>
  C6, as the claim states it, fails: a single apostrophe is a maximal run of
  word-characters in the claim's sense, so the claim makes it a Word token, and the
  display classifies it as Punctuation.
\<close>

theorem apostrophe_run_is_punctuation:
  "classifiedTokens [CHR 0x27] = [([CHR 0x27], Punctuation)]
   \<and> spec_tokenize [CHR 0x27] = [([CHR 0x27], Word)]
   \<and> classifiedTokens [CHR 0x27] \<noteq> spec_tokenize [CHR 0x27]"
  by code_simp

text \<open>
  C6, amended. For every input string the tokens, concatenated in order, are the input,
  and no token is empty. Each token is the longest run, from where the token before it
  ended, of the class of the regular expression that its first character selects: word
  characters \<^verbatim>\<open>[A-Za-z0-9_']\<close> first, otherwise characters that are neither \<^verbatim>\<open>[A-Za-z0-9_]\<close>
  nor whitespace, otherwise whitespace. So every such run becomes exactly one token, and
  the token list is the only list with these properties. A token is shown as Whitespace
  exactly when it is a run of whitespace, as Punctuation exactly when it has neither a
  character of \<^verbatim>\<open>[A-Za-z0-9_]\<close> nor whitespace (a run of apostrophes alone is Punctuation),
  and as a Word exactly when it is a run of word characters with at least one character of
  \<^verbatim>\<open>[A-Za-z0-9_]\<close>.
\<close>

theorem tokens_are_greedy_runs:
  "concat (matchAll s) = s
   \<and> list_all matchedRun (matchAll s)
   \<and> rightMaximal (matchAll s)
   \<and> list_all kindMatchesRun (matchAll s)
   \<and> (\<forall>ts. concat ts = s \<and> list_all matchedRun ts \<and> rightMaximal ts \<longrightarrow> ts = matchAll s)"
proof -
  have "list_all kindMatchesRun (matchAll s)"
    using matchAll_matchedRun[of s] by (auto simp: list_all_iff matchedRun_kind)
  moreover have "\<forall>ts. concat ts = s \<and> list_all matchedRun ts \<and> rightMaximal ts \<longrightarrow> ts = matchAll s"
    using matchAll_unique by auto
  ultimately show ?thesis
    by (simp add: matchAll_concat matchAll_matchedRun matchAll_rightMaximal)
qed

theorem tokens_are_greedy_runs_witness:
  "concat [''Hello'', '' '', ''world'', ''!''] = ''Hello world!''
   \<and> list_all matchedRun [''Hello'', '' '', ''world'', ''!'']
   \<and> rightMaximal [''Hello'', '' '', ''world'', ''!'']
   \<and> [''Hello'', '' '', ''world'', ''!''] = matchAll ''Hello world!''
   \<and> list_all kindMatchesRun (matchAll ''Hello world!'')"
proof -
  have h1: "concat [''Hello'', '' '', ''world'', ''!''] = ''Hello world!''" by simp
  have h2: "list_all matchedRun [''Hello'', '' '', ''world'', ''!'']" by code_simp
  have h3: "rightMaximal [''Hello'', '' '', ''world'', ''!'']" by code_simp
  show ?thesis
    using h1 h2 h3 tokens_are_greedy_runs[of "''Hello world!''"] by blast
qed

section \<open>Properties of the dictionary lookup\<close>

lemma find_append_case:
  "find P (xs @ ys) = (case find P xs of Some x \<Rightarrow> Some x | None \<Rightarrow> find P ys)"
  by (induction xs) auto

lemma find_map_Pair:
  "find P (map (Pair a) xs) = map_option (Pair a) (find (\<lambda>x. P (a, x)) xs)"
  by (induction xs) auto

lemma last_butlast_nth:
  assumes "length base \<ge> 2"
  shows "last (butlast base) = base ! (length base - 2)"
proof -
  from assms have "butlast base \<noteq> []" by (cases base) auto
  then have "last (butlast base) = butlast base ! (length (butlast base) - 1)"
    by (rule last_conv_nth)
  also have "\<dots> = base ! (length base - 2)"
    using assms by (simp add: nth_butlast numeral_2_eq_2)
  finally show ?thesis .
qed

lemma tryBase_spec:
  "tryBase wordData base =
     map_option snd (find (\<lambda>rc. wordData (snd rc) \<noteq> None) (spec_repairs base))"
proof (cases "length base \<ge> 2")
  case True
  then have "base \<noteq> []" by auto
  with True show ?thesis
    by (auto simp: tryBase_def spec_repairs_def Let_def last_butlast_nth last_conv_nth
             split: option.splits)
next
  case False
  then show ?thesis
    by (auto simp: tryBase_def spec_repairs_def Let_def split: option.splits)
qed

lemma getBaseFormLoop_spec:
  "getBaseFormLoop wordData w table =
     map_option (\<lambda>cand. snd (snd cand))
       (find (\<lambda>cand. wordData (snd (snd cand)) \<noteq> None) (spec_candidates table w))"
proof (induction table)
  case Nil
  then show ?case by (simp add: spec_candidates_def)
next
  case (Cons p table)
  obtain suffix minLength where p: "p = (suffix, minLength)" by (cases p)
  have step: "spec_candidates (p # table) w =
      (if length w \<ge> minLength \<and> endsWith w suffix
       then map (Pair suffix) (spec_repairs (take (length w - length suffix) w)) else [])
      @ spec_candidates table w"
    by (simp add: spec_candidates_def p)
  show ?case
    unfolding step find_append_case
    using Cons.IH
    by (simp add: p tryBase_spec find_map_Pair option.map_comp comp_def
           split: option.splits)
qed

lemma getBaseForm_spec:
  "getBaseForm wordData w = map_option (\<lambda>cand. snd (snd cand)) (spec_stem wordData w)"
  by (simp add: getBaseForm_def spec_stem_def getBaseFormLoop_spec)

lemma normalize_idem: "normalize (normalize w) = normalize w"
proof -
  have "\<And>c. isLowerAZ c \<Longrightarrow> toLowerChar c = c"
    by (auto simp: isLowerAZ_def toLowerChar_def Let_def)
  then have "map toLowerChar (filter isLowerAZ xs) = filter isLowerAZ xs" for xs
    by (induction xs) auto
  then show ?thesis by (simp add: normalize_def toLowerCase_def)
qed

lemma getBaseForm_empty: "getBaseForm wordData [] = None"
  by (simp add: getBaseForm_def suffixes_def)

text \<open>
  C4. Stemmer priority and repair paths: the suffix table of \<^verbatim>\<open>getBaseForm\<close> is in the
  order ing, ed, s, es, er, est, ly, tion, ment; \<^verbatim>\<open>getBaseForm\<close> returns the first candidate
  in the store, the candidates running through the suffixes in that order and, for each
  base, through the base itself, the undone doubling and the restored silent e; \<^verbatim>\<open>lookup\<close>
  answers with that candidate's entry when the normalised word itself is not in the store.
  With only ``practice'' in the store, ``practicing'' is found through the silent e; with
  only ``run'', ``running'' is found through the undone doubling.
\<close>

theorem stemmer_priority:
  "map fst suffixes = spec_suffix_order
   \<and> getBaseForm wordData w = map_option (\<lambda>cand. snd (snd cand)) (spec_stem wordData w)
   \<and> lookup wordData w =
       (if w = [] then None
        else case wordData (normalize w) of
               Some e \<Rightarrow> Some \<lparr>word = normalize w, originalWord = None, entry = e\<rparr>
             | None \<Rightarrow>
                 (case spec_stem wordData (normalize w) of
                    None \<Rightarrow> None
                  | Some cand \<Rightarrow>
                      map_option
                        (\<lambda>e. \<lparr>word = snd (snd cand), originalWord = Some (normalize w),
                               entry = e\<rparr>)
                        (wordData (snd (snd cand)))))
   \<and> spec_stem (map_of [(''practice'', r)]) ''practicing'' = Some (''ing'', SilentE, ''practice'')
   \<and> lookup (map_of [(''practice'', r)]) ''practicing''
       = Some \<lparr>word = ''practice'', originalWord = Some ''practicing'', entry = r\<rparr>
   \<and> spec_stem (map_of [(''run'', r)]) ''running'' = Some (''ing'', DoublingUndo, ''run'')
   \<and> lookup (map_of [(''run'', r)]) ''running''
       = Some \<lparr>word = ''run'', originalWord = Some ''running'', entry = r\<rparr>"
proof -
  have order: "map fst suffixes = spec_suffix_order"
    by (simp add: suffixes_def spec_suffix_order_def)
  have look: "lookup wordData w =
       (if w = [] then None
        else case wordData (normalize w) of
               Some e \<Rightarrow> Some \<lparr>word = normalize w, originalWord = None, entry = e\<rparr>
             | None \<Rightarrow>
                 (case spec_stem wordData (normalize w) of
                    None \<Rightarrow> None
                  | Some cand \<Rightarrow>
                      map_option
                        (\<lambda>e. \<lparr>word = snd (snd cand), originalWord = Some (normalize w),
                               entry = e\<rparr>)
                        (wordData (snd (snd cand)))))"
    by (simp add: lookup_def Let_def getBaseForm_spec split: option.splits)
  have practice: "spec_stem (map_of [(''practice'', r)]) ''practicing''
      = Some (''ing'', SilentE, ''practice'')"
    by (simp add: spec_stem_def spec_candidates_def suffixes_def endsWith_def spec_repairs_def)
  have run: "spec_stem (map_of [(''run'', r)]) ''running'' = Some (''ing'', DoublingUndo, ''run'')"
    by (simp add: spec_stem_def spec_candidates_def suffixes_def endsWith_def spec_repairs_def)
  have practice_lookup: "lookup (map_of [(''practice'', r)]) ''practicing''
       = Some \<lparr>word = ''practice'', originalWord = Some ''practicing'', entry = r\<rparr>"
    by (simp add: lookup_def normalize_def toLowerCase_def toLowerChar_def isLowerAZ_def
          getBaseForm_def suffixes_def endsWith_def tryBase_def)
  have run_lookup: "lookup (map_of [(''run'', r)]) ''running''
       = Some \<lparr>word = ''run'', originalWord = Some ''running'', entry = r\<rparr>"
    by (simp add: lookup_def normalize_def toLowerCase_def toLowerChar_def isLowerAZ_def
          getBaseForm_def suffixes_def endsWith_def tryBase_def)
  show ?thesis
    using order look practice run practice_lookup run_lookup getBaseForm_spec[of wordData w]
    by blast
qed

text \<open>
  C8, as the claim states it, fails: the guard of \<^verbatim>\<open>lookup\<close> rejects the empty string before
  it is normalised, and a word without any letter is normalised to the empty string after
  the guard. With an entry under the empty key, ``!'' is found and its normal form is not.
\<close>

theorem lookup_normalize_empty_key:
  "lookup (map_of [([], ())]) ''!'' = Some \<lparr>word = [], originalWord = None, entry = ()\<rparr>
   \<and> lookup (map_of [([], ())]) (normalize ''!'') = None
   \<and> lookup (map_of [([], ())]) ''!'' \<noteq> lookup (map_of [([], ())]) (normalize ''!'')"
  by code_simp

text \<open>
  C8, amended. For every surface form and every store, \<^verbatim>\<open>lookup\<close> gives the same result on
  the surface form and on its normal form (lower case, everything outside a to z removed),
  whenever the normal form is not empty or the store has no entry under the empty key.
\<close>

theorem lookup_normalize:
  assumes "normalize w \<noteq> [] \<or> wordData [] = None"
  shows "lookup wordData w = lookup wordData (normalize w)"
proof (cases "normalize w = []")
  case True
  with assms have e: "wordData [] = None" by simp
  have "normalize [] = []" by (simp add: normalize_def toLowerCase_def)
  with True e show ?thesis
    by (simp add: lookup_def getBaseForm_empty)
next
  case False
  then have "w \<noteq> []" by (auto simp: normalize_def toLowerCase_def)
  with False show ?thesis
    by (simp add: lookup_def normalize_idem)
qed

theorem lookup_normalize_witness:
  "normalize ''Running!'' \<noteq> []
   \<and> lookup (map_of [(''run'', ())]) ''Running!''
       = lookup (map_of [(''run'', ())]) (normalize ''Running!'')
   \<and> lookup (map_of [(''run'', ())]) ''Running!''
       = Some \<lparr>word = ''run'', originalWord = Some ''running'', entry = ()\<rparr>"
proof -
  have h: "normalize ''Running!'' \<noteq> []"
    by code_simp
  have v: "lookup (map_of [(''run'', ())]) ''Running!''
       = Some \<lparr>word = ''run'', originalWord = Some ''running'', entry = ()\<rparr>"
    by code_simp
  show ?thesis
    using h v lookup_normalize[where w = "''Running!''" and wordData = "map_of [(''run'', ())]"]
    by simp
qed


section \<open>Properties of the highlight synchronizer\<close>

lemma highlightWord_fields:
  "currentWordIndex (highlightWord i s) = i"
  "length (wordElements (highlightWord i s)) = length (wordElements s)"
  "boundaryFired (highlightWord i s) = boundaryFired s"
  "highlightTimer (highlightWord i s) = highlightTimer s"
  "isSingleWordMode (highlightWord i s) = isSingleWordMode s"
  by (simp_all add: highlightWord_def Let_def inBounds_def setActive_def)

lemma timerTick_inert: "boundaryFired s \<Longrightarrow> timerTick s = s"
  by (simp add: timerTick_def split: option.splits)

lemma handleWordBoundary_fired:
  "\<not> isSingleWordMode s \<Longrightarrow> boundaryFired (handleWordBoundary ci cl s)"
  by (simp add: handleWordBoundary_def Let_def highlightWord_fields split: option.splits)

lemma deliver_keeps_fired: "boundaryFired s \<Longrightarrow> boundaryFired (deliver s sig)"
  by (cases sig)
     (simp_all add: timerTick_inert handleWordBoundary_def Let_def highlightWord_fields
        split: option.splits)

lemma foldl_deliver_keeps_fired: "boundaryFired s \<Longrightarrow> boundaryFired (foldl deliver s sigs)"
  by (induction sigs arbitrary: s) (simp_all add: deliver_keeps_fired)

lemma ticks_before_boundary:
  assumes "\<not> boundaryFired s" "k < length (wordElements s)"
  shows "currentWordIndex ((timerTick ^^ k) (startHighlighting rate s)) = int k
       \<and> map_option wordIndex (highlightTimer ((timerTick ^^ k) (startHighlighting rate s)))
           = Some (Suc k)
       \<and> \<not> boundaryFired ((timerTick ^^ k) (startHighlighting rate s))
       \<and> length (wordElements ((timerTick ^^ k) (startHighlighting rate s)))
           = length (wordElements s)"
  using assms
proof (induction k)
  case 0
  then show ?case
    by (auto simp: startHighlighting_def stopHighlighting_def Let_def highlightWord_fields)
next
  case (Suc k)
  then show ?case
    by (auto simp: timerTick_def highlightWord_fields split: option.splits)
qed

text \<open>
  C1. The claim is right about what the walk is meant to do, and the code misses it: the
  walk adds the length of a whitespace token and then one more for the space behind the
  word before it. For the tokens of ``Hello world!'' the boundary event at offset 6 (the
  start of ``world'') finds no word, so the active index stays at 0, where the ticker's
  first highlight put it; ``world'' is found at the offsets 7 to 11 instead.
\<close>

theorem boundary_offset_six_missed:
  "words helloSession = [''Hello'', '' '', ''world'', ''!'']
   \<and> currentWordIndex helloSession = 0
   \<and> findSpokenWord (words helloSession) 6 0 0 = None
   \<and> currentWordIndex (handleWordBoundary 6 5 helloSession) = 0
   \<and> currentWordIndex (handleWordBoundary 6 5 helloSession) \<noteq> 1
   \<and> map (\<lambda>charIndex. findSpokenWord (words helloSession) charIndex 0 0) [5, 6, 7, 11, 12]
       = [None, None, Some 1, Some 1, None]"
  by code_simp

text \<open>
  C2. Authority hand-off: once a boundary event has been processed (the page is not in
  single word mode), then after any further ticks and boundary events of the session a
  tick of the interval leaves the state, and with it the active word index, as it is; and
  as long as no boundary event has arrived, the ticks started by \<^verbatim>\<open>startHighlighting\<close> move
  the active index on by one each: after \<open>k\<close> ticks it is \<open>k\<close>, for \<open>k\<close> below the number of
  words.
\<close>

theorem authority_handoff:
  "(\<not> isSingleWordMode s \<longrightarrow>
      timerTick (foldl deliver (handleWordBoundary charIndex charLength s) sigs)
        = foldl deliver (handleWordBoundary charIndex charLength s) sigs)
   \<and> (\<not> boundaryFired s \<and> k < length (wordElements s) \<longrightarrow>
        currentWordIndex ((timerTick ^^ k) (startHighlighting rate s)) = int k)"
  using ticks_before_boundary[of s k rate]
  by (simp add: timerTick_inert foldl_deliver_keeps_fired handleWordBoundary_fired)

theorem authority_handoff_witness:
  "\<not> isSingleWordMode helloSession
   \<and> \<not> boundaryFired helloSession
   \<and> (1::nat) < length (wordElements helloSession)
   \<and> timerTick (foldl deliver (handleWordBoundary 7 5 helloSession) [Tick, Boundary 0 5, Tick])
       = foldl deliver (handleWordBoundary 7 5 helloSession) [Tick, Boundary 0 5, Tick]
   \<and> currentWordIndex ((timerTick ^^ 1) (startHighlighting 1 helloSession)) = int 1"
proof -
  have h1: "\<not> isSingleWordMode helloSession" by code_simp
  have h2: "\<not> boundaryFired helloSession" by code_simp
  have h3: "(1::nat) < length (wordElements helloSession)" by code_simp
  show ?thesis
    using h1 h2 h3
      authority_handoff[where s = helloSession and charIndex = 7 and charLength = 5
        and sigs = "[Tick, Boundary 0 5, Tick]" and k = 1 and rate = 1]
    by simp
qed

text \<open>
  C3. The claim is right about the intended phases (the source's own comment on the first
  phase reads ``no highlighting''), and the code misses the first part:
  \<^verbatim>\<open>handleWordBoundary\<close> stays installed during the normal-speed phase and highlights. After
  the Shadowing button on ``Hello world!'' the first phase is speaking at rate 1 with no
  ticker and no highlight; a boundary event at offset 0 then highlights the first word.
  The rest of the run is as claimed: the end of the first utterance registers the pause
  of 1000 ms, and only the firing of that pause starts the slow utterance and the ticker.
\<close>

theorem shadowing_normal_phase_highlights:
  "onEnd helloShadowing = ShadowingNormalEnd ''Hello world!''
   \<and> map_option fst (currentUtterance helloShadowing) = Some ''Hello world!''
   \<and> highlightTimer helloShadowing = None
   \<and> currentWordIndex helloShadowing = - 1
   \<and> map active (wordElements helloShadowing) = [False, False]
   \<and> currentWordIndex (handleWordBoundary 0 5 helloShadowing) = 0
   \<and> map active (wordElements (handleWordBoundary 0 5 helloShadowing)) = [True, False]
   \<and> currentUtterance (speechEnded helloShadowing) = None
   \<and> timeouts (speechEnded helloShadowing) = [(1000, ''Hello world!'')]
   \<and> map_option fst (currentUtterance (timeoutFired (speechEnded helloShadowing)))
       = Some ''Hello world!''
   \<and> map_option wordIndex (highlightTimer (timeoutFired (speechEnded helloShadowing))) = Some 1
   \<and> map active (wordElements (timeoutFired (speechEnded helloShadowing))) = [True, False]"
  by code_simp

text \<open>
  C5, as the claim states it, fails: \<^verbatim>\<open>handleStop\<close> does not touch \<^verbatim>\<open>boundaryFired\<close>, and
  it keeps the word elements. After Play on ``Hello world!'' and one boundary event, Stop
  leaves the flag set and the two words in place.
\<close>

theorem stop_keeps_boundaryFired:
  "boundaryFired (handleStop (handleWordBoundary 0 5 helloSession)) \<noteq> False
   \<and> length (wordElements (handleStop (handleWordBoundary 0 5 helloSession))) \<noteq> 0"
  by code_simp

text \<open>
  C5, amended. Stop sets the active word index to -1, removes the highlight from every
  word element and halts the ticker; it leaves \<^verbatim>\<open>boundaryFired\<close> and the number of word
  elements as they were. The flag is reset to false, and the index to -1, when the next
  playback request prepares the display.
\<close>

theorem stop_resets_highlight:
  "currentWordIndex (handleStop s) = - 1
   \<and> highlightTimer (handleStop s) = None
   \<and> list_all (\<lambda>el. \<not> active el) (wordElements (handleStop s))
   \<and> boundaryFired (handleStop s) = boundaryFired s
   \<and> length (wordElements (handleStop s)) = length (wordElements s)
   \<and> currentWordIndex (prepareDisplay text s) = - 1
   \<and> boundaryFired (prepareDisplay text s) = False"
  by (simp add: handleStop_def updateStatus_def disableButtons_def clearHighlights_def
        stopHighlighting_def TTS_stop_def prepareDisplay_def Let_def list_all_iff)

theorem stop_resets_highlight_witness:
  "currentWordIndex (handleStop helloSession) = - 1
   \<and> highlightTimer (handleStop helloSession) = None
   \<and> list_all (\<lambda>el. \<not> active el) (wordElements (handleStop helloSession))
   \<and> boundaryFired (handleStop helloSession) = boundaryFired helloSession
   \<and> length (wordElements (handleStop helloSession)) = length (wordElements helloSession)
   \<and> currentWordIndex (prepareDisplay ''Hi'' helloSession) = - 1
   \<and> boundaryFired (prepareDisplay ''Hi'' helloSession) = False"
  by (rule stop_resets_highlight)

lemma trim_spaces:
  assumes "list_all isSpaceChar t"
  shows "trim t = []"
proof -
  from assms have d: "dropWhile isSpaceChar t = []" by (simp add: list_all_iff)
  show ?thesis unfolding trim_def d by simp
qed

text \<open>
  C9. Empty-input rejection: when the input field is empty or holds only whitespace, the
  Play, Slow and Shadowing buttons change nothing but the status line (the message
  ``Please enter some text''): tokens, word elements, active index, boundary flag, ticker,
  utterance and callbacks are those of the state before.
\<close>

theorem empty_input_rejected:
  assumes "list_all isSpaceChar (textInput s)"
  shows "handlePlay s =
           s\<lparr>statusText := ''Please enter some text'', statusPlaying := False,
             statusShadowing := False\<rparr>
       \<and> handleSlow s =
           s\<lparr>statusText := ''Please enter some text'', statusPlaying := False,
             statusShadowing := False\<rparr>
       \<and> handleShadowing s =
           s\<lparr>statusText := ''Please enter some text'', statusPlaying := False,
             statusShadowing := False\<rparr>"
  using assms
  by (simp add: handlePlay_def handleSlow_def handleShadowing_def getCurrentText_def
        trim_spaces updateStatus_def)

theorem empty_input_rejected_witness:
  "list_all isSpaceChar (textInput (helloSession\<lparr>textInput := ''  ''\<rparr>))
   \<and> handlePlay (helloSession\<lparr>textInput := ''  ''\<rparr>) =
       helloSession\<lparr>textInput := ''  '', statusText := ''Please enter some text'',
         statusPlaying := False, statusShadowing := False\<rparr>
   \<and> handleSlow (helloSession\<lparr>textInput := ''  ''\<rparr>) =
       helloSession\<lparr>textInput := ''  '', statusText := ''Please enter some text'',
         statusPlaying := False, statusShadowing := False\<rparr>
   \<and> handleShadowing (helloSession\<lparr>textInput := ''  ''\<rparr>) =
       helloSession\<lparr>textInput := ''  '', statusText := ''Please enter some text'',
         statusPlaying := False, statusShadowing := False\<rparr>"
proof -
  have h: "list_all isSpaceChar (textInput (helloSession\<lparr>textInput := ''  ''\<rparr>))"
    by (simp add: isSpaceChar_def)
  show ?thesis
    using h empty_input_rejected[OF h] by simp
qed


section \<open>The single active highlight\<close>

lemma highlightConsistent_nth:
  "highlightConsistent s =
     (\<forall>j < length (wordElements s).
        active (wordElements s ! j) = (int j = currentWordIndex s))"
  unfolding highlightConsistent_def by (subst list_eq_iff_nth_eq) simp

lemma clear_previous:
  assumes "\<forall>j < length els. active (els ! j) = (int j = i0)"
  shows "\<forall>j < length els.
           \<not> active ((if 0 \<le> i0 \<and> i0 < int (length els)
                       then els[nat i0 := (els ! nat i0)\<lparr>active := False\<rparr>] else els) ! j)"
proof (intro allI impI)
  fix j assume j: "j < length els"
  show "\<not> active ((if 0 \<le> i0 \<and> i0 < int (length els)
                     then els[nat i0 := (els ! nat i0)\<lparr>active := False\<rparr>] else els) ! j)"
  proof (cases "0 \<le> i0 \<and> i0 < int (length els)")
    case True
    then show ?thesis using assms j by (cases "j = nat i0") (auto simp: nth_list_update)
  next
    case False
    then show ?thesis using assms j by auto
  qed
qed

lemma set_new:
  assumes "\<forall>j < length els. \<not> active (els ! j)"
  shows "\<forall>j < length els.
           active ((if 0 \<le> i \<and> i < int (length els)
                    then els[nat i := (els ! nat i)\<lparr>active := True\<rparr>] else els) ! j)
             = (int j = i)"
proof (intro allI impI)
  fix j assume j: "j < length els"
  show "active ((if 0 \<le> i \<and> i < int (length els)
                  then els[nat i := (els ! nat i)\<lparr>active := True\<rparr>] else els) ! j)
          = (int j = i)"
  proof (cases "0 \<le> i \<and> i < int (length els)")
    case True
    then show ?thesis using assms j by (cases "j = nat i") (auto simp: nth_list_update)
  next
    case False
    then show ?thesis using assms j by auto
  qed
qed

lemma highlightWord_elements:
  "wordElements (highlightWord i s) =
     (let els1 = (if 0 \<le> currentWordIndex s \<and> currentWordIndex s < int (length (wordElements s))
                  then (wordElements s)[nat (currentWordIndex s) :=
                         (wordElements s ! nat (currentWordIndex s))\<lparr>active := False\<rparr>]
                  else wordElements s)
      in if 0 \<le> i \<and> i < int (length els1)
         then els1[nat i := (els1 ! nat i)\<lparr>active := True\<rparr>] else els1)"
  by (simp add: highlightWord_def Let_def inBounds_def setActive_def)

lemma highlightWord_consistent:
  assumes "highlightConsistent s"
  shows "highlightConsistent (highlightWord i s)"
proof -
  define els1 where
    "els1 = (if 0 \<le> currentWordIndex s \<and> currentWordIndex s < int (length (wordElements s))
             then (wordElements s)[nat (currentWordIndex s) :=
                    (wordElements s ! nat (currentWordIndex s))\<lparr>active := False\<rparr>]
             else wordElements s)"
  have len: "length els1 = length (wordElements s)" by (simp add: els1_def)
  have "\<forall>j < length (wordElements s). \<not> active (els1 ! j)"
    unfolding els1_def
    using assms clear_previous[of "wordElements s" "currentWordIndex s"]
    by (simp only: highlightConsistent_nth)
  then have off: "\<forall>j < length els1. \<not> active (els1 ! j)" by (simp add: len)
  have els: "wordElements (highlightWord i s) =
      (if 0 \<le> i \<and> i < int (length els1)
       then els1[nat i := (els1 ! nat i)\<lparr>active := True\<rparr>] else els1)"
    by (simp add: highlightWord_elements els1_def Let_def)
  have "\<forall>j < length els1. active (wordElements (highlightWord i s) ! j) = (int j = i)"
    unfolding els using set_new[OF off, of i] .
  then show ?thesis
    by (simp add: highlightConsistent_nth highlightWord_fields len)
qed

lemma clearHighlights_consistent: "highlightConsistent (clearHighlights s)"
  unfolding highlightConsistent_nth by (auto simp: clearHighlights_def)

lemma applyOp_consistent: "highlightConsistent s \<Longrightarrow> highlightConsistent (applyOp s op)"
  by (cases op) (simp_all add: highlightWord_consistent clearHighlights_consistent)

lemma foldl_applyOp_consistent:
  "highlightConsistent s \<Longrightarrow> highlightConsistent (foldl applyOp s ops)"
  by (induction ops arbitrary: s) (simp_all add: applyOp_consistent)

lemma applyOp_length: "length (wordElements (applyOp s op)) = length (wordElements s)"
  by (cases op) (simp_all add: highlightWord_fields clearHighlights_def)

lemma foldl_applyOp_length:
  "length (wordElements (foldl applyOp s ops)) = length (wordElements s)"
  by (induction ops arbitrary: s) (simp_all add: applyOp_length)

lemma consistent_at_most_one:
  assumes "highlightConsistent s"
  shows "length (filter active (wordElements s)) \<le> 1"
proof -
  let ?n = "length (wordElements s)"
  let ?P = "\<lambda>j. int j = currentWordIndex s"
  have "length (filter active (wordElements s))
          = length (filter id (map active (wordElements s)))"
    by (simp add: filter_map comp_def)
  also have "\<dots> = length (filter ?P [0..<?n])"
    using assms by (simp add: highlightConsistent_def filter_map comp_def)
  also have "\<dots> = card {j \<in> set [0..<?n]. ?P j}"
    by (simp add: distinct_length_filter Int_def conj_commute)
  also have "\<dots> \<le> card {nat (currentWordIndex s)}"
    by (rule card_mono) auto
  finally show ?thesis by simp
qed

lemma foldl_appendToken_inactive:
  "list_all (\<lambda>el. \<not> active el) (snd acc) \<Longrightarrow>
   list_all (\<lambda>el. \<not> active el) (snd (foldl appendToken acc ws))"
  by (induction ws arbitrary: acc) (simp_all add: appendToken_def)

lemma prepareDisplay_consistent: "highlightConsistent (prepareDisplay text s)"
  using foldl_appendToken_inactive[of "([], [])" "matchAll text"]
  unfolding highlightConsistent_nth
  by (auto simp: prepareDisplay_def Let_def list_all_length)

lemma index_stays_in_bounds:
  "currentWordIndex s = - 1 \<or> inBounds (currentWordIndex s) s \<Longrightarrow>
   list_all (opInBounds (length (wordElements s))) ops \<Longrightarrow>
   currentWordIndex (foldl applyOp s ops) = - 1
   \<or> inBounds (currentWordIndex (foldl applyOp s ops)) (foldl applyOp s ops)"
proof (induction ops arbitrary: s)
  case Nil
  then show ?case by simp
next
  case (Cons op ops)
  have "currentWordIndex (applyOp s op) = - 1
        \<or> inBounds (currentWordIndex (applyOp s op)) (applyOp s op)"
    using Cons.prems
    by (cases op) (auto simp: highlightWord_fields inBounds_def clearHighlights_def)
  moreover have "list_all (opInBounds (length (wordElements (applyOp s op)))) ops"
    using Cons.prems by (simp add: applyOp_length)
  ultimately show ?case using Cons.IH[of "applyOp s op"] by simp
qed

lemma displayInvariant_cong:
  "wordElements s' = wordElements s \<Longrightarrow> currentWordIndex s' = currentWordIndex s \<Longrightarrow>
   words s' = words s \<Longrightarrow> displayInvariant s' = displayInvariant s"
  by (simp add: displayInvariant_def highlightConsistent_def inBounds_def)

lemma displayInvariant_neutral [simp]:
  "displayInvariant (updateStatus m mode s) = displayInvariant s"
  "displayInvariant (disableButtons b s) = displayInvariant s"
  "displayInvariant (TTS_stop s) = displayInvariant s"
  "displayInvariant (TTS_speak t r s) = displayInvariant s"
  "displayInvariant (TTS_speakNormal t s) = displayInvariant s"
  "displayInvariant (TTS_speakSlow t s) = displayInvariant s"
  "displayInvariant (stopHighlighting s) = displayInvariant s"
  "displayInvariant (s\<lparr>highlightTimer := ht\<rparr>) = displayInvariant s"
  "displayInvariant (s\<lparr>boundaryFired := bf\<rparr>) = displayInvariant s"
  "displayInvariant (s\<lparr>onEnd := oe\<rparr>) = displayInvariant s"
  "displayInvariant (s\<lparr>isShadowingMode := sm\<rparr>) = displayInvariant s"
  "displayInvariant (s\<lparr>isSingleWordMode := sw\<rparr>) = displayInvariant s"
  "displayInvariant (s\<lparr>timeouts := ts\<rparr>) = displayInvariant s"
  "displayInvariant (s\<lparr>textInput := ti\<rparr>) = displayInvariant s"
  "displayInvariant (s\<lparr>currentUtterance := cu\<rparr>) = displayInvariant s"
  "displayInvariant (s\<lparr>statusPlaying := sp\<rparr>) = displayInvariant s"
  "displayInvariant (s\<lparr>statusShadowing := ss\<rparr>) = displayInvariant s"
  by (rule displayInvariant_cong;
      simp add: updateStatus_def disableButtons_def TTS_stop_def TTS_speak_def
        TTS_speakNormal_def TTS_speakSlow_def stopHighlighting_def)+


lemma highlightWord_words: "words (highlightWord i s) = words s"
  by (simp add: highlightWord_def Let_def setActive_def)

lemma highlightWord_invariant:
  assumes "displayInvariant s" "inBounds i s"
  shows "displayInvariant (highlightWord i s)"
  using assms
  by (simp add: displayInvariant_def highlightWord_consistent highlightWord_fields
        highlightWord_words inBounds_def)

lemma clearHighlights_invariant:
  "displayInvariant s \<Longrightarrow> displayInvariant (clearHighlights s)"
  by (simp add: displayInvariant_def clearHighlights_consistent)
     (simp add: clearHighlights_def)

lemma foldl_appendToken_length:
  "length (snd (foldl appendToken acc ws)) = length (snd acc) + length (filter isWordToken ws)"
  by (induction ws arbitrary: acc) (simp_all add: appendToken_def isWordToken_def)

lemma prepareDisplay_invariant: "displayInvariant (prepareDisplay text s)"
proof -
  have "length (wordElements (prepareDisplay text s))
          = length (filter isWordToken (words (prepareDisplay text s)))"
    by (simp add: prepareDisplay_def Let_def foldl_appendToken_length)
  moreover have "currentWordIndex (prepareDisplay text s) = - 1"
    by (simp add: prepareDisplay_def Let_def)
  ultimately show ?thesis
    by (simp add: displayInvariant_def prepareDisplay_consistent)
qed

lemma startHighlighting_invariant:
  assumes "displayInvariant s"
  shows "displayInvariant (startHighlighting rate s)"
proof (cases "length (wordElements (stopHighlighting s)) = 0")
  case True
  then show ?thesis using assms by (simp add: startHighlighting_def Let_def)
next
  case False
  then have "inBounds 0 (stopHighlighting s)" by (simp add: inBounds_def)
  then have "displayInvariant (highlightWord 0 (stopHighlighting s))"
    using assms by (simp add: highlightWord_invariant)
  with False show ?thesis by (simp add: startHighlighting_def Let_def)
qed

lemma timerTick_invariant:
  assumes "displayInvariant s"
  shows "displayInvariant (timerTick s)"
proof (cases "highlightTimer s")
  case None
  then show ?thesis using assms by (simp add: timerTick_def)
next
  case (Some t)
  show ?thesis
  proof (cases "\<not> boundaryFired s \<and> wordIndex t < length (wordElements s)")
    case True
    then have "inBounds (int (wordIndex t)) s" by (simp add: inBounds_def)
    then have "displayInvariant (highlightWord (int (wordIndex t)) s)"
      using assms by (rule highlightWord_invariant[rotated])
    with True Some show ?thesis by (simp add: timerTick_def)
  next
    case False
    with Some assms show ?thesis by (auto simp: timerTick_def)
  qed
qed

lemma findSpokenWord_bound:
  "findSpokenWord ws charIndex charCount wordIdx = Some r \<Longrightarrow>
   r < wordIdx + length (filter isWordToken ws)"
proof (induction ws arbitrary: charCount wordIdx)
  case Nil
  then show ?case by simp
next
  case (Cons w ws)
  show ?case
  proof (cases "isWhitespaceToken w \<or> isNonWordToken w")
    case True
    then have "findSpokenWord ws charIndex (charCount + int (length w)) wordIdx = Some r"
      using Cons.prems by simp
    from Cons.IH[OF this] True show ?thesis by (auto simp: isWordToken_def)
  next
    case False
    then have w: "isWordToken w" by (simp add: isWordToken_def)
    show ?thesis
    proof (cases "charCount \<le> charIndex \<and> charIndex < charCount + int (length w)")
      case True
      with False Cons.prems have "r = wordIdx" by simp
      with w show ?thesis by simp
    next
      case nf: False
      with False Cons.prems have
        "findSpokenWord ws charIndex
           (charCount + int (length w) + (if ws \<noteq> [] then 1 else 0)) (wordIdx + 1) = Some r"
        by (simp split: if_splits)
      from Cons.IH[OF this] w show ?thesis by simp
    qed
  qed
qed

lemma handleWordBoundary_invariant:
  assumes "displayInvariant s"
  shows "displayInvariant (handleWordBoundary charIndex charLength s)"
proof (cases "isSingleWordMode s")
  case True
  then show ?thesis using assms by (simp add: handleWordBoundary_def)
next
  case False
  let ?s1 = "s\<lparr>boundaryFired := True\<rparr>"
  have inv1: "displayInvariant ?s1" using assms by simp
  show ?thesis
  proof (cases "findSpokenWord (words ?s1) charIndex 0 0")
    case None
    with False inv1 show ?thesis by (simp add: handleWordBoundary_def Let_def)
  next
    case (Some r)
    from findSpokenWord_bound[OF Some] inv1
    have "inBounds (int r) ?s1" by (simp add: displayInvariant_def inBounds_def)
    with inv1 have "displayInvariant (highlightWord (int r) ?s1)"
      by (rule highlightWord_invariant)
    with False Some show ?thesis by (simp add: handleWordBoundary_def Let_def)
  qed
qed

lemma handlePlay_invariant: "displayInvariant s \<Longrightarrow> displayInvariant (handlePlay s)"
  by (simp add: handlePlay_def Let_def startHighlighting_invariant prepareDisplay_invariant)

lemma handleSlow_invariant: "displayInvariant s \<Longrightarrow> displayInvariant (handleSlow s)"
  by (simp add: handleSlow_def Let_def startHighlighting_invariant prepareDisplay_invariant)

lemma handleShadowing_invariant: "displayInvariant s \<Longrightarrow> displayInvariant (handleShadowing s)"
  by (simp add: handleShadowing_def startShadowingMode_def Let_def prepareDisplay_invariant)

lemma handleStop_invariant: "displayInvariant s \<Longrightarrow> displayInvariant (handleStop s)"
  by (simp add: handleStop_def clearHighlights_invariant)

lemma handleShadowingComplete_invariant:
  "displayInvariant s \<Longrightarrow> displayInvariant (handleShadowingComplete s)"
  by (simp add: handleShadowingComplete_def clearHighlights_invariant)

lemma handleSpeechEnd_invariant: "displayInvariant s \<Longrightarrow> displayInvariant (handleSpeechEnd s)"
  by (simp add: handleSpeechEnd_def clearHighlights_invariant)

lemma speechEnded_invariant: "displayInvariant s \<Longrightarrow> displayInvariant (speechEnded s)"
  by (simp add: speechEnded_def Let_def shadowingNormalEnd_def handleSpeechEnd_invariant
        handleShadowingComplete_invariant split: endCallback.splits)

lemma timeoutFired_invariant: "displayInvariant s \<Longrightarrow> displayInvariant (timeoutFired s)"
  by (simp add: timeoutFired_def Let_def startHighlighting_invariant
        split: list.splits prod.splits)

lemma handleEvent_invariant: "displayInvariant s \<Longrightarrow> displayInvariant (handleEvent s e)"
  by (cases e)
     (simp_all add: handlePlay_invariant handleSlow_invariant handleShadowing_invariant
        handleStop_invariant speechEnded_invariant timeoutFired_invariant timerTick_invariant
        handleWordBoundary_invariant handleBreakdownClick_def handleSpeechStart_def)

lemma foldl_handleEvent_invariant:
  "displayInvariant s \<Longrightarrow> displayInvariant (foldl handleEvent s es)"
  by (induction es arbitrary: s) (simp_all add: handleEvent_invariant)

lemma initialState_invariant: "displayInvariant initialState"
  by (simp add: displayInvariant_def highlightConsistent_def initialState_def)

lemma invariant_single:
  assumes "displayInvariant s"
  shows "singleActiveHighlight s"
proof -
  have c: "highlightConsistent s" using assms by (simp add: displayInvariant_def)
  have one: "length (filter active (wordElements s)) \<le> 1"
    using c by (rule consistent_at_most_one)
  show ?thesis
  proof (cases "currentWordIndex s = - 1")
    case True
    with c have "\<forall>j < length (wordElements s). \<not> active (wordElements s ! j)"
      by (simp add: highlightConsistent_nth)
    then have "list_all (\<lambda>el. \<not> active el) (wordElements s)"
      by (simp add: list_all_length)
    with True one show ?thesis by (simp add: singleActiveHighlight_def)
  next
    case False
    with assms have "inBounds (currentWordIndex s) s" by (simp add: displayInvariant_def)
    with False one c show ?thesis
      by (simp add: singleActiveHighlight_def highlightConsistent_def)
  qed
qed

lemma single_consistent:
  assumes "singleActiveHighlight s"
  shows "highlightConsistent s \<and> (currentWordIndex s = - 1 \<or> inBounds (currentWordIndex s) s)"
proof (cases "currentWordIndex s = - 1")
  case True
  with assms have "\<forall>j < length (wordElements s). \<not> active (wordElements s ! j)"
    by (simp add: singleActiveHighlight_def list_all_length)
  with True show ?thesis by (simp add: highlightConsistent_nth)
next
  case False
  with assms show ?thesis by (simp add: singleActiveHighlight_def highlightConsistent_def)
qed

lemma ops_single:
  assumes "singleActiveHighlight s" "list_all (opInBounds (length (wordElements s))) ops"
  shows "singleActiveHighlight (foldl applyOp s ops)"
proof -
  let ?s' = "foldl applyOp s ops"
  from single_consistent[OF assms(1)]
  have c: "highlightConsistent s" and b: "currentWordIndex s = - 1 \<or> inBounds (currentWordIndex s) s"
    by simp_all
  have c': "highlightConsistent ?s'" using c by (rule foldl_applyOp_consistent)
  have b': "currentWordIndex ?s' = - 1 \<or> inBounds (currentWordIndex ?s') ?s'"
    using b assms(2) by (rule index_stays_in_bounds)
  have one: "length (filter active (wordElements ?s')) \<le> 1"
    using c' by (rule consistent_at_most_one)
  show ?thesis
  proof (cases "currentWordIndex ?s' = - 1")
    case True
    with c' have "\<forall>j < length (wordElements ?s'). \<not> active (wordElements ?s' ! j)"
      by (simp add: highlightConsistent_nth)
    then have "list_all (\<lambda>el. \<not> active el) (wordElements ?s')"
      by (simp add: list_all_length)
    with True one show ?thesis by (simp add: singleActiveHighlight_def)
  next
    case False
    with b' one c' show ?thesis
      by (simp add: singleActiveHighlight_def highlightConsistent_def)
  qed
qed

lemma highlightWord_exact:
  assumes "singleActiveHighlight s" "inBounds i s"
  shows "map active (wordElements (highlightWord i s))
           = map (\<lambda>j. int j = i) [0..<length (wordElements s)]"
proof -
  have "highlightConsistent (highlightWord i s)"
    using single_consistent[OF assms(1)] by (simp add: highlightWord_consistent)
  then show ?thesis by (simp add: highlightConsistent_def highlightWord_fields)
qed

text \<open>
  C10. Single active highlight: in every state the page can reach from its initial state,
  by any sequence of events, at most one word element is active, and the recorded index
  is either -1 with no element active or an in-bounds index with exactly that element
  active. The same holds after any sequence of \<^verbatim>\<open>highlightWord\<close> and \<^verbatim>\<open>clearHighlights\<close>
  calls with in-bounds indices (the only ones the script passes) from a state where it
  holds; and \<^verbatim>\<open>highlightWord\<close> with an in-bounds index leaves exactly the new element active,
  the one before it being cleared.
\<close>

theorem single_highlight_invariant:
  "singleActiveHighlight (foldl handleEvent initialState events)
   \<and> (singleActiveHighlight s \<and> list_all (opInBounds (length (wordElements s))) ops \<longrightarrow>
        singleActiveHighlight (foldl applyOp s ops))
   \<and> (singleActiveHighlight s \<and> inBounds i s \<longrightarrow>
        map active (wordElements (highlightWord i s))
          = map (\<lambda>j. int j = i) [0..<length (wordElements s)])"
  using invariant_single[OF foldl_handleEvent_invariant[OF initialState_invariant, of events]]
    ops_single[of s ops] highlightWord_exact[of s i]
  by blast

theorem single_highlight_invariant_witness:
  "singleActiveHighlight helloSession
   \<and> list_all (opInBounds (length (wordElements helloSession)))
       [HighlightWord 1, ClearHighlights, HighlightWord 0, HighlightWord 1]
   \<and> inBounds 1 helloSession
   \<and> singleActiveHighlight
       (foldl applyOp helloSession
          [HighlightWord 1, ClearHighlights, HighlightWord 0, HighlightWord 1])
   \<and> map active (wordElements helloSession) = [True, False]
   \<and> map active (wordElements (highlightWord 1 helloSession)) = [False, True]
   \<and> singleActiveHighlight
       (foldl handleEvent initialState
          [InputChanged ''Hello world!'', PlayClicked, TimerTick, WordBoundary 0 5,
           WordBoundary 99 1, StopClicked, ShadowingClicked, WordBoundary 7 5, SpeechEnded,
           TimeoutFired, TimerTick, TimerTick, TimerTick])"
proof -
  have h1: "singleActiveHighlight helloSession" by code_simp
  have h2: "list_all (opInBounds (length (wordElements helloSession)))
       [HighlightWord 1, ClearHighlights, HighlightWord 0, HighlightWord 1]" by code_simp
  have h3: "inBounds 1 helloSession" by code_simp
  have v: "map active (wordElements helloSession) = [True, False]" by code_simp
  have n: "map (\<lambda>j. int j = 1) [0..<length (wordElements helloSession)] = [False, True]"
    by code_simp
  show ?thesis
    using h1 h2 h3 v n
      single_highlight_invariant[where s = helloSession and i = 1
        and ops = "[HighlightWord 1, ClearHighlights, HighlightWord 0, HighlightWord 1]"
        and events = "[InputChanged ''Hello world!'', PlayClicked, TimerTick, WordBoundary 0 5,
           WordBoundary 99 1, StopClicked, ShadowingClicked, WordBoundary 7 5, SpeechEnded,
           TimeoutFired, TimerTick, TimerTick, TimerTick]"]
    by simp
qed

end
